theory Spec2Isabelle
  imports Main "HOL-Library.AList"
begin

section \<open>Python strings\<close>

text \<open>
  Strings are \<open>char list\<close>; a \<open>char\<close> is a code point below 256, so the text
  covered is Latin-1, which includes the no-break space U+00A0 that the portal's pages
  hold. The operations below are the \<open>str\<close> methods that \<open>tools.py\<close> and
  \<open>main.py\<close> call: \<open>startswith\<close>, the substring test \<open>in\<close>,
  \<open>replace(old, '')\<close>, \<open>strip()\<close> and \<open>upper()\<close>.
\<close>

definition startswith :: "string \<Rightarrow> string \<Rightarrow> bool" where
  "startswith p s = (take (length p) s = p)"

fun contains :: "string \<Rightarrow> string \<Rightarrow> bool" where
  "contains sub [] = (sub = [])"
| "contains sub (c # cs) = (startswith sub (c # cs) \<or> contains sub cs)"

text \<open>
  \<open>s.replace(old, '')\<close>: the occurrences of \<open>old\<close> are removed from left to right,
  without overlap, in one pass. With an empty \<open>old\<close> Python inserts the (empty)
  replacement between the characters, which leaves \<open>s\<close> as it is.
\<close>

function str_remove :: "string \<Rightarrow> string \<Rightarrow> string" where
  "str_remove old [] = []"
| "str_remove old (c # cs) =
     (if old \<noteq> [] \<and> startswith old (c # cs)
      then str_remove old (drop (length old) (c # cs))
      else c # str_remove old cs)"
  by pat_completeness auto
termination
  by (relation "measure (\<lambda>(old, s). length s)") (auto simp: neq_Nil_conv)

text \<open>
  The code points below 256 for which \<open>str.isspace\<close> holds, which are the ones
  \<open>str.strip()\<close> removes: tab, line feed, vertical tab, form feed, carriage return
  (9 to 13), the separators 0x1c to 0x1f, the space (32), the next-line control U+0085
  and the no-break space U+00A0.
\<close>

definition is_space :: "char \<Rightarrow> bool" where
  "is_space c =
     (let n = (of_char c :: nat)
      in (9 \<le> n \<and> n \<le> 13) \<or> (28 \<le> n \<and> n \<le> 32) \<or> n = 133 \<or> n = 160)"

definition strip :: "string \<Rightarrow> string" where
  "strip s = rev (dropWhile is_space (rev (dropWhile is_space s)))"

text \<open>
  \<open>str.upper()\<close> on the letters \<open>a\<close> to \<open>z\<close>. No other code point below 256
  has an upper-case form that holds \<open>E\<close>, \<open>C\<close> or \<open>A\<close>, so the test
  \<open>name.upper().startswith("ECA")\<close>, the only use of \<open>upper\<close>, is the same.
\<close>

definition upper_char :: "char \<Rightarrow> char" where
  "upper_char c =
     (let n = (of_char c :: nat) in if 97 \<le> n \<and> n \<le> 122 then char_of (n - 32) else c)"

definition upper :: "string \<Rightarrow> string" where
  "upper s = map upper_char s"

section \<open>Python values, dictionaries and errors\<close>

text \<open>
  The exceptions the modelled functions raise. \<open>CollegePortalError\<close> carries its
  status code and message, \<open>HTTPException\<close> its status code and detail.
\<close>

datatype error =
    CollegePortalError nat string
  | HTTPException nat string
  | IndexError

text \<open>
  The values a scraped mapping holds. A \<open>dict\<close> keeps its insertion order, so it is an
  association list with distinct keys; \<open>d[k] = v\<close> is \<open>dict_set\<close>, which overwrites
  the value of a key that is present and appends a new key otherwise. The type \<open>'f\<close>
  is the type of floats.
\<close>

datatype 'f pyval =
    VInt int
  | VFloat 'f
  | VBool bool
  | VStr string
  | VDict "(string \<times> 'f pyval) list"

definition dict_set :: "('k \<times> 'v) list \<Rightarrow> 'k \<Rightarrow> 'v \<Rightarrow> ('k \<times> 'v) list" where
  "dict_set d k v = AList.update k v d"

definition dict_of :: "('k \<times> 'v) list \<Rightarrow> ('k \<times> 'v) list" where
  "dict_of kvs = foldl (\<lambda>d (k, v). dict_set d k v) [] kvs"

definition keys :: "('k \<times> 'v) list \<Rightarrow> 'k list" where
  "keys d = map fst d"

text \<open>
  The builtins \<open>int(s)\<close> and \<open>float(s)\<close> on a string, with \<open>None\<close> for
  \<open>ValueError\<close>, and the comparison \<open>x == 0\<close> on a float. They belong to the
  interpreter, not to the repository, so the functions below take them as a parameter
  and every general theorem holds for all of them.
\<close>

record 'f builtins =
  int_of :: "string \<Rightarrow> int option"
  float_of :: "string \<Rightarrow> 'f option"
  float_is_zero :: "'f \<Rightarrow> bool"

section \<open>tools.py: the open-elective rewrite\<close>

definition format_oe_subject :: "string \<Rightarrow> string" where
  "format_oe_subject subject =
     (if startswith ''OE-'' subject
      then (let base = strip (str_remove ''(OE)'' (str_remove ''OE-'' subject))
            in base @ ''(OE)-OE'')
      else subject)"

text \<open>
  The rewrite as the specification words it: strip the leading \<open>OE-\<close> and any
  \<open>(OE)\<close>, then append the canonical suffix. It is compared with the code below.
\<close>

definition oe_rewrite_spec :: "string \<Rightarrow> string" where
  "oe_rewrite_spec s =
     (if startswith ''OE-'' s then str_remove ''(OE)'' (drop 3 s) @ ''(OE)-OE'' else s)"

section \<open>tools.py: the cell coercers\<close>

definition to_number :: "'f builtins \<Rightarrow> 'f pyval \<Rightarrow> 'f pyval" where
  "to_number B val =
     (case val of
        VStr s \<Rightarrow>
          (let v = strip s in
           if v = ''-'' \<or> v = '''' then (if v = ''-'' then VStr ''-'' else VInt 0)
           else if CHR ''.'' \<notin> set v
             then (case int_of B v of Some n \<Rightarrow> VInt n | None \<Rightarrow> VStr v)
             else (case float_of B v of Some x \<Rightarrow> VFloat x | None \<Rightarrow> VStr v))
      | _ \<Rightarrow> val)"

text \<open>
  \<open>convert_values_to_number\<close> walks the items of a dict and rewrites the values in
  place; \<open>convert_value\<close> is what it does to one value: recurse into a dict, coerce a
  string, leave anything else.
\<close>

fun convert_value :: "'f builtins \<Rightarrow> 'f pyval \<Rightarrow> 'f pyval" where
  "convert_value B (VDict d) = VDict (map (\<lambda>kv. (fst kv, convert_value B (snd kv))) d)"
| "convert_value B (VStr s) =
     (let v = strip s in
      if v = '''' then VStr s
      else (case int_of B v of
              Some n \<Rightarrow> VInt n
            | None \<Rightarrow> (case float_of B v of Some x \<Rightarrow> VFloat x | None \<Rightarrow> VStr s)))"
| "convert_value B (VInt n) = VInt n"
| "convert_value B (VFloat x) = VFloat x"
| "convert_value B (VBool b) = VBool b"

definition convert_values_to_number ::
  "'f builtins \<Rightarrow> (string \<times> 'f pyval) list \<Rightarrow> (string \<times> 'f pyval) list" where
  "convert_values_to_number B d = map (\<lambda>kv. (fst kv, convert_value B (snd kv))) d"

section \<open>The builtins on plain decimal text\<close>

text \<open>
  An instance of the builtins, used to run the functions on concrete cells.
  \<open>py_int\<close> is \<open>int(s)\<close> on ASCII text: surrounding whitespace, an optional
  sign, then decimal digits, which single underscores may separate. \<open>py_float\<close> is
  \<open>float(s)\<close> on the strings a marks or attendance cell holds: an optional sign
  and decimal digits with at most one point; the value \<open>Decimal m k\<close> stands for
  the float nearest to \<open>m / 10 ^ k\<close>. Exponents, underscores, \<open>inf\<close> and
  \<open>nan\<close> are outside this instance.
\<close>

definition is_digit :: "char \<Rightarrow> bool" where
  "is_digit c = (let n = (of_char c :: nat) in 48 \<le> n \<and> n \<le> 57)"

definition digits_val :: "string \<Rightarrow> nat" where
  "digits_val ds = foldl (\<lambda>a c. 10 * a + ((of_char c :: nat) - 48)) 0 ds"

definition split_sign :: "string \<Rightarrow> bool \<times> string" where
  "split_sign v =
     (case v of
        [] \<Rightarrow> (False, [])
      | c # r \<Rightarrow> if c = CHR ''-'' then (True, r) else if c = CHR ''+'' then (False, r) else (False, v))"

definition valid_digits :: "string \<Rightarrow> bool" where
  "valid_digits ds =
     (ds \<noteq> [] \<and> list_all (\<lambda>c. is_digit c \<or> c = CHR ''_'') ds \<and> is_digit (hd ds)
      \<and> is_digit (last ds) \<and> \<not> contains ''__'' ds)"

definition py_int :: "string \<Rightarrow> int option" where
  "py_int s =
     (let (neg, ds) = split_sign (strip s) in
      if valid_digits ds
      then (let n = int (digits_val (filter is_digit ds)) in Some (if neg then - n else n))
      else None)"

datatype decimal = Decimal int nat

definition py_float :: "string \<Rightarrow> decimal option" where
  "py_float s =
     (let (neg, body) = split_sign (strip s);
          ip = takeWhile (\<lambda>c. c \<noteq> CHR ''.'') body;
          fp = drop (length ip + 1) body in
      if list_all is_digit (ip @ fp) \<and> ip @ fp \<noteq> []
      then (let m = int (digits_val (ip @ fp)) in Some (Decimal (if neg then - m else m) (length fp)))
      else None)"

definition py :: "decimal builtins" where
  "py = \<lparr>int_of = py_int, float_of = py_float,
         float_is_zero = (\<lambda>x. case x of Decimal m k \<Rightarrow> m = 0)\<rparr>"

section \<open>tools.py: the subject rows of the marks table\<close>

text \<open>
  \<open>parse_marks_table\<close> reads the second table of class \<open>tableclass\<close>. A table is
  the list of its rows and a row the list of the texts of its \<open>td\<close> cells, as
  \<open>get_text(strip=True)\<close> gives them. The part modelled is the one that builds the
  list \<open>subjects\<close>: the header schema, the loop over the data rows and the
  classification of the component pairs.
\<close>

datatype sub_type = Single | Grade | Points | Credits | Max | Secured

record 'f component =
  comp_name :: string
  comp_max :: "'f pyval"
  comp_secured :: "'f pyval"

record 'f subject =
  s_no :: "'f pyval"
  subj_name :: "'f pyval"
  credits :: "'f pyval"
  assignment :: "'f component list"
  quiz :: "'f component list"
  internal :: "'f component list"
  sessional :: "'f component list"
  grade :: "'f pyval"
  grade_points :: "'f pyval"

fun component_map :: "string list \<Rightarrow> (string \<times> sub_type) list" where
  "component_map [] = []"
| "component_map (main_header # hs) =
     (if main_header \<in> set [''S.No'', ''Subject Name''] then [(main_header, Single)]
      else if main_header = ''ExternalGrades''
        then [(main_header, Grade), (main_header, Points), (main_header, Credits)]
      else [(main_header, Max), (main_header, Secured)]) @ component_map hs"

text \<open>
  \<open>temp_components\<close> maps a main header to a dict with the keys \<open>'max'\<close> and
  \<open>'secured'\<close>, each present or not: a pair of options.
\<close>

type_synonym 'f temp_components = "(string \<times> ('f pyval option \<times> 'f pyval option)) list"

definition init_subject :: "'f subject" where
  "init_subject =
     \<lparr>s_no = VInt 0, subj_name = VStr [], credits = VInt 0, assignment = [], quiz = [],
      internal = [], sessional = [], grade = VStr ''-'', grade_points = VInt 0\<rparr>"

definition route_cell ::
  "'f builtins \<Rightarrow> 'f subject \<times> 'f temp_components \<Rightarrow> (string \<times> sub_type) \<times> string
     \<Rightarrow> 'f subject \<times> 'f temp_components" where
  "route_cell B st col =
     (let (subject, temp) = st;
          ((main_header, sub_type), text) = col;
          cell_value = to_number B (VStr text) in
      if main_header = ''S.No'' then (subject\<lparr>s_no := cell_value\<rparr>, temp)
      else if main_header = ''Subject Name'' then (subject\<lparr>subj_name := cell_value\<rparr>, temp)
      else if main_header = ''ExternalGrades'' then
        (case sub_type of
           Grade \<Rightarrow> (subject\<lparr>grade := cell_value\<rparr>, temp)
         | Points \<Rightarrow> (subject\<lparr>grade_points := cell_value\<rparr>, temp)
         | Credits \<Rightarrow> (subject\<lparr>credits := cell_value\<rparr>, temp)
         | _ \<Rightarrow> (subject, temp))
      else
        (let temp1 = (if main_header \<notin> set (keys temp)
                      then dict_set temp main_header (None, None) else temp);
             old = (case map_of temp1 main_header of Some p \<Rightarrow> p | None \<Rightarrow> (None, None)) in
         case sub_type of
           Max \<Rightarrow> (subject, dict_set temp1 main_header (Some cell_value, snd old))
         | Secured \<Rightarrow> (subject, dict_set temp1 main_header (fst old, Some cell_value))
         | _ \<Rightarrow> (subject, temp1)))"

text \<open>\<open>x in ['-', 0]\<close>: equal to the string \<open>'-'\<close> or equal to the number 0.\<close>

definition in_dash_zero :: "'f builtins \<Rightarrow> 'f pyval \<Rightarrow> bool" where
  "in_dash_zero B x =
     (case x of
        VStr s \<Rightarrow> s = ''-''
      | VInt n \<Rightarrow> n = 0
      | VFloat f \<Rightarrow> float_is_zero B f
      | VBool b \<Rightarrow> \<not> b
      | VDict d \<Rightarrow> False)"

definition get_default :: "'a option \<Rightarrow> 'a \<Rightarrow> 'a" where
  "get_default x d = (case x of Some v \<Rightarrow> v | None \<Rightarrow> d)"

definition add_component ::
  "'f builtins \<Rightarrow> 'f subject \<Rightarrow> string \<times> ('f pyval option \<times> 'f pyval option) \<Rightarrow> 'f subject" where
  "add_component B subject item =
     (let (name, vals) = item;
          max_val = get_default (fst vals) (VInt 0);
          secured_val = get_default (snd vals) (VInt 0);
          entry = \<lparr>comp_name = name, comp_max = max_val, comp_secured = secured_val\<rparr> in
      if startswith ''Int'' name then subject\<lparr>internal := internal subject @ [entry]\<rparr>
      else if startswith ''Quiz'' name then subject\<lparr>quiz := quiz subject @ [entry]\<rparr>
      else if startswith ''Asst'' name then subject\<lparr>assignment := assignment subject @ [entry]\<rparr>
      else if startswith ''SessionalMarks'' name then
        (if \<not> in_dash_zero B max_val \<and> \<not> in_dash_zero B secured_val
         then subject\<lparr>sessional := sessional subject @ [entry]\<rparr>
         else subject)
      else subject)"

definition row_temp_components :: "'f builtins \<Rightarrow> string list \<Rightarrow> string list \<Rightarrow> 'f temp_components" where
  "row_temp_components B main_headers cells =
     snd (foldl (route_cell B) (init_subject, []) (zip (component_map main_headers) cells))"

text \<open>The body of the loop over the data rows; \<open>None\<close> is a row that is skipped.\<close>

definition parse_marks_row :: "'f builtins \<Rightarrow> string list \<Rightarrow> string list \<Rightarrow> 'f subject option" where
  "parse_marks_row B main_headers cells =
     (if length cells \<noteq> length (component_map main_headers) then None
      else (let (subject, temp) =
                  foldl (route_cell B) (init_subject, []) (zip (component_map main_headers) cells)
            in Some (foldl (add_component B) subject temp)))"

definition newline_to_space :: "string \<Rightarrow> string" where
  "newline_to_space s = map (\<lambda>c. if c = CHR 0x0A then CHR '' '' else c) s"

text \<open>
  The list \<open>subjects\<close> of \<open>parse_marks_table\<close>, from the tables of class
  \<open>tableclass\<close>. Fewer than two tables raise \<open>ValueError\<close>; a table without the
  two header rows raises \<open>IndexError\<close> at \<open>rows[1]\<close> or \<open>rows[2]\<close>.
\<close>

datatype marks_error = ValueError string | MarksIndexError

definition parse_marks_subjects ::
  "'f builtins \<Rightarrow> string list list list \<Rightarrow> marks_error + 'f subject list" where
  "parse_marks_subjects B tables =
     (if length tables < 2
      then Inl (ValueError (''Less than two tables with class='' @ [CHR 0x27] @ ''tableclass''
                              @ [CHR 0x27] @ '' found.''))
      else (let rows = tables ! 1 in
            if length rows < 3 then Inl MarksIndexError
            else (let main_headers = map newline_to_space (rows ! 1);
                      data_rows = drop 3 (take (length rows - 2) rows)
                  in Inr (List.map_filter (parse_marks_row B main_headers) data_rows))))"

section \<open>tools.py: the attendance page\<close>

text \<open>
  What \<open>get_attendance_subjects\<close> reads of the parsed page: the first \<open>img\<close> tag
  (absent, or present with or without a \<open>src\<close> attribute) and, for each of the two
  summary tables, whether the outer table is there, whether it holds an inner table of
  class \<open>tableclass\<close>, and the rows of that inner table (each row the list of the
  texts of its \<open>td\<close> cells).
\<close>

record att_soup =
  img_tag :: "string option option"
  sub_summary_table :: "string list list option option"
  total_summary_table :: "string list list option option"

type_synonym 'f matrix = "(string \<times> (string \<times> 'f pyval) list) list"

definition normalized_names :: "string list \<Rightarrow> string list" where
  "normalized_names headers = map (\<lambda>name. format_oe_subject (strip name)) headers"

definition keep_indices :: "string list \<Rightarrow> nat list" where
  "keep_indices full =
     filter (\<lambda>i. \<not> startswith ''ECA'' (upper (full ! i))) [0 ..< length full]"

definition filtered_values :: "nat list \<Rightarrow> string list \<Rightarrow> string list" where
  "filtered_values keep vals = map (\<lambda>i. vals ! i) (filter (\<lambda>i. i < length vals) keep)"

text \<open>
  The mapping stored for one data row:
  \<open>convert_values_to_number(dict(zip(subject_names, filtered_values)))\<close>.
\<close>

definition row_mapping ::
  "'f builtins \<Rightarrow> string list \<Rightarrow> nat list \<Rightarrow> string list \<Rightarrow> (string \<times> 'f pyval) list" where
  "row_mapping B names keep vals =
     convert_values_to_number B (dict_of (zip names (map VStr (filtered_values keep vals))))"

definition sub_row ::
  "'f builtins \<Rightarrow> string list \<Rightarrow> nat list \<Rightarrow> 'f matrix \<Rightarrow> string list \<Rightarrow> 'f matrix" where
  "sub_row B names keep acc cells =
     (if cells = [] then acc
      else dict_set acc (cells ! 0) (row_mapping B names keep (drop 1 cells)))"

text \<open>
  In the totals table the title is \<open>cells[1]\<close>, which raises \<open>IndexError\<close> on a row
  of one cell.
\<close>

fun total_rows_loop ::
  "'f builtins \<Rightarrow> string list \<Rightarrow> nat list \<Rightarrow> 'f matrix \<Rightarrow> string list list \<Rightarrow> error + 'f matrix" where
  "total_rows_loop B names keep acc [] = Inr acc"
| "total_rows_loop B names keep acc (cells # rows) =
     (if cells = [] then total_rows_loop B names keep acc rows
      else if length cells < 2 then Inl IndexError
      else total_rows_loop B names keep
             (dict_set acc (cells ! 1) (row_mapping B names keep (drop 2 cells))) rows)"

text \<open>
  \<open>convert_values_to_number\<close> on a matrix, whose values are all dicts: it recurses
  into each of them.
\<close>

definition convert_matrix :: "'f builtins \<Rightarrow> 'f matrix \<Rightarrow> 'f matrix" where
  "convert_matrix B m = map (\<lambda>kv. (fst kv, convert_values_to_number B (snd kv))) m"

definition get_attendance_subjects ::
  "'f builtins \<Rightarrow> att_soup \<Rightarrow> error + ('f matrix \<times> 'f matrix \<times> string option)" where
  "get_attendance_subjects B soup =
     (let image_url = (case img_tag soup of Some (Some src) \<Rightarrow> Some src | _ \<Rightarrow> None) in
      case (sub_summary_table soup, total_summary_table soup) of
        (Some sub_inner_table, Some total_inner_table) \<Rightarrow>
          (case (sub_inner_table, total_inner_table) of
             (Some sub_rows, Some total_rows) \<Rightarrow>
               if sub_rows = [] \<or> total_rows = []
               then Inr (convert_matrix B [], convert_matrix B [], image_url)
               else
                 (let sub_headers = sub_rows ! 0;
                      sub_type_headers = total_rows ! 0;
                      full_subject_names = normalized_names (drop 1 sub_headers);
                      keep = keep_indices full_subject_names;
                      subject_names = map (\<lambda>i. full_subject_names ! i) keep;
                      full_sub_type_names = normalized_names (drop 2 sub_type_headers);
                      total_keep = keep_indices full_sub_type_names;
                      sub_type_names = map (\<lambda>i. full_sub_type_names ! i) total_keep;
                      sub_attendance_data = foldl (sub_row B subject_names keep) [] (drop 1 sub_rows)
                  in case total_rows_loop B sub_type_names total_keep [] (drop 1 total_rows) of
                       Inl e \<Rightarrow> Inl e
                     | Inr total_attendance_data \<Rightarrow>
                         Inr (sub_attendance_data, total_attendance_data, image_url))
           | _ \<Rightarrow> Inr ([], [], image_url))
      | _ \<Rightarrow> Inr ([], [], image_url))"

section \<open>tools.py: the student profile\<close>

text \<open>
  What \<open>get_student_info\<close> reads of the parsed dashboard: the \<open>div\<close> with id
  \<open>divStudentInfo\<close> (absent or present), its first table (absent or present), and
  the rows of that table, each the list of the texts of its \<open>th\<close> and \<open>td\<close> cells.
\<close>

type_synonym student_soup = "string list list option option"

definition student_row ::
  "(string \<times> 'f pyval) list \<Rightarrow> string list \<Rightarrow> (string \<times> 'f pyval) list" where
  "student_row data cols =
     (if length cols < 2 then data
      else (let key = cols ! 0; val = cols ! 1 in
            if key \<noteq> [] \<and> val \<noteq> [] then dict_set data key (VStr val) else data))"

definition get_student_info ::
  "'f builtins \<Rightarrow> string \<Rightarrow> student_soup \<Rightarrow> error + (string \<times> 'f pyval) list" where
  "get_student_info B html soup =
     (if html = [] \<or> length (strip html) = 0
      then Inl (CollegePortalError 500 ''Empty or invalid HTML received from ERP.'')
      else case soup of
        None \<Rightarrow> Inl (CollegePortalError 500 ''Student information section not found in ERP dashboard.'')
      | Some None \<Rightarrow> Inl (CollegePortalError 500 ''Student information table not found in ERP dashboard.'')
      | Some (Some rows) \<Rightarrow>
          (let data = foldl student_row [] rows in
           if data = [] then Inl (CollegePortalError 500 ''No student data found in ERP dashboard table.'')
           else Inr (convert_values_to_number B data)))"

section \<open>main.py: the dashboard handler\<close>

text \<open>
  The handler works on the session cache and the remote portal. The state is the cache
  (a map from the Redis key to the stored document) and the list of the URLs requested
  so far; \<open>http_get\<close> is the portal's answer to a GET. The stored document has the
  two entries \<open>dashboardData\<close> and \<open>hiddenFields\<close>. \<open>fetch_dashboard_data\<close> of
  \<open>services.py\<close>, which requests the attendance and marks pages, is a parameter: it
  takes the dashboard HTML, the session id and the list of requests and returns its
  result with the extended list. A request for the dashboard page that fails at the
  network raises before there is any HTML to test; the model starts from a page that
  was received.
\<close>

record 'a document =
  dashboardData :: 'a
  hiddenFields :: "(string \<times> string) list"

record 'a server =
  cache :: "string \<Rightarrow> 'a document option"
  requests :: "string list"

definition DASHBOARD_URL :: string where
  "DASHBOARD_URL = ''https://erp.vce.ac.in/sinfo/DashBoard.aspx''"

definition dashboard ::
  "(string \<Rightarrow> string)
     \<Rightarrow> (string \<Rightarrow> string \<Rightarrow> string list \<Rightarrow> (error + 'a document) \<times> string list)
     \<Rightarrow> 'a server \<Rightarrow> string \<Rightarrow> (error + 'a) \<times> 'a server" where
  "dashboard http_get fetch_dashboard_data st session_id =
     (let redis_key = ''erp:session:'' @ session_id in
      case cache st redis_key of
        Some cached_data \<Rightarrow> (Inr (dashboardData cached_data), st)
      | None \<Rightarrow>
          (let st1 = st\<lparr>requests := requests st @ [DASHBOARD_URL]\<rparr>;
               html_text = http_get DASHBOARD_URL in
           if \<not> contains ''Logout'' html_text
           then (Inl (HTTPException 401 ''Session expired''), st1)
           else (case fetch_dashboard_data html_text session_id (requests st1) of
                   (Inl e, reqs) \<Rightarrow> (Inl e, st1\<lparr>requests := reqs\<rparr>)
                 | (Inr dashboard_data, reqs) \<Rightarrow>
                     (Inr (dashboardData dashboard_data),
                      st1\<lparr>requests := reqs,
                          cache := (cache st1)(redis_key \<mapsto> dashboard_data)\<rparr>))))"

section \<open>Auxiliary predicates\<close>

text \<open>Every row mapping of a matrix has its keys among the given names.\<close>

definition rows_within :: "string list \<Rightarrow> 'f matrix \<Rightarrow> bool" where
  "rows_within names m = (\<forall>(t, r) \<in> set m. set (keys r) \<subseteq> set names)"

section \<open>Facts about the string operations\<close>

lemma str_remove_absent: "\<not> contains old s \<Longrightarrow> str_remove old s = s"
  by (induction s) auto

lemma str_remove_prefix: "old \<noteq> [] \<Longrightarrow> str_remove old (old @ s) = str_remove old s"
  by (cases old) (auto simp: startswith_def)

lemma startswith_oe_suffix:
  assumes "\<not> startswith ''OE-'' b"
  shows "\<not> startswith ''OE-'' (b @ ''(OE)-OE'')"
proof -
  consider "b = []" | a where "b = [a]" | a c where "b = [a, c]"
    | a c d r where "b = a # c # d # r"
    by (metis list.exhaust)
  then show ?thesis
    using assms by cases (simp_all add: startswith_def)
qed

lemma strip_all_space:
  assumes "\<forall>c \<in> set s. is_space c"
  shows "strip s = []"
proof -
  from assms have e: "dropWhile is_space s = []" by simp
  show ?thesis unfolding strip_def e by simp
qed

lemma format_oe_subject_single_prefix:
  assumes "\<not> contains ''OE-'' x"
  shows "format_oe_subject (''OE-'' @ x) = strip (str_remove ''(OE)'' x) @ ''(OE)-OE''"
proof -
  have "str_remove ''OE-'' (''OE-'' @ x) = str_remove ''OE-'' x"
    by (rule str_remove_prefix) simp
  also have "\<dots> = x" using assms by (rule str_remove_absent)
  finally have r: "str_remove ''OE-'' (''OE-'' @ x) = x" .
  have p: "startswith ''OE-'' (''OE-'' @ x)" by (simp add: startswith_def)
  show ?thesis
    unfolding format_oe_subject_def using p r by (simp del: str_remove.simps)
qed

lemma format_oe_subject_fixed: "\<not> startswith ''OE-'' t \<Longrightarrow> format_oe_subject t = t"
  by (simp add: format_oe_subject_def)

section \<open>The open-elective rewrite\<close>

text \<open>
  C8, as stated: both \<open>OE-DBMS(OE)\<close> and \<open>OE-DBMS\<close> become \<open>DBMS(OE)-OE\<close>, and a
  name \<open>OE-<X>\<close> loses its leading \<open>OE-\<close> and any \<open>(OE)\<close> and gains the suffix
  \<open>(OE)-OE\<close>. The two examples hold, the general sentence does not: the code also
  strips the whitespace around the base. On \<open>OE-DBMS (OE)\<close> the code gives
  \<open>DBMS(OE)-OE\<close> where the sentence gives \<open>DBMS (OE)-OE\<close>.
\<close>

theorem format_oe_subject_strips_base:
  "format_oe_subject ''OE-DBMS (OE)'' = ''DBMS(OE)-OE''
   \<and> oe_rewrite_spec ''OE-DBMS (OE)'' = ''DBMS (OE)-OE''
   \<and> format_oe_subject ''OE-DBMS (OE)'' \<noteq> oe_rewrite_spec ''OE-DBMS (OE)''"
  by code_simp

text \<open>
  C8, amended: for a name \<open>OE-X\<close> in which \<open>X\<close> holds no further \<open>OE-\<close>, the result
  is \<open>X\<close> with every \<open>(OE)\<close> removed and the surrounding whitespace stripped,
  followed by \<open>(OE)-OE\<close>. A name that does not start with \<open>OE-\<close> is returned
  unchanged, and \<open>OE-DBMS(OE)\<close> and \<open>OE-DBMS\<close> both give \<open>DBMS(OE)-OE\<close>. Names
  with a second \<open>OE-\<close> are left out of the statement.
\<close>

theorem format_oe_subject_rewrite:
  "(\<not> contains ''OE-'' x \<longrightarrow>
      format_oe_subject (''OE-'' @ x) = strip (str_remove ''(OE)'' x) @ ''(OE)-OE'')
   \<and> (\<not> startswith ''OE-'' s \<longrightarrow> format_oe_subject s = s)
   \<and> format_oe_subject ''OE-DBMS(OE)'' = ''DBMS(OE)-OE''
   \<and> format_oe_subject ''OE-DBMS'' = ''DBMS(OE)-OE''"
proof -
  have d: "format_oe_subject ''OE-DBMS(OE)'' = ''DBMS(OE)-OE''" by code_simp
  have e: "format_oe_subject ''OE-DBMS'' = ''DBMS(OE)-OE''" by code_simp
  have a: "\<not> contains ''OE-'' x \<longrightarrow>
      format_oe_subject (''OE-'' @ x) = strip (str_remove ''(OE)'' x) @ ''(OE)-OE''"
    using format_oe_subject_single_prefix by blast
  have b: "\<not> startswith ''OE-'' s \<longrightarrow> format_oe_subject s = s"
    using format_oe_subject_fixed by blast
  from a b d e show ?thesis by blast
qed

theorem format_oe_subject_rewrite_witness:
  "\<not> contains ''OE-'' ''CN (OE)'' \<and> \<not> startswith ''OE-'' ''DS''
   \<and> format_oe_subject ''OE-CN (OE)'' = ''CN(OE)-OE''
   \<and> format_oe_subject ''DS'' = ''DS''"
proof -
  have n: "\<not> contains ''OE-'' ''CN (OE)''" by code_simp
  have q: "\<not> startswith ''OE-'' ''DS''" by code_simp
  have "format_oe_subject (''OE-'' @ ''CN (OE)'') = strip (str_remove ''(OE)'' ''CN (OE)'') @ ''(OE)-OE''"
    using format_oe_subject_rewrite [where x = "''CN (OE)''" and s = "''DS''"] n by blast
  moreover have "strip (str_remove ''(OE)'' ''CN (OE)'') @ ''(OE)-OE'' = ''CN(OE)-OE''"
    by code_simp
  ultimately have r: "format_oe_subject ''OE-CN (OE)'' = ''CN(OE)-OE''" by simp
  have "format_oe_subject ''DS'' = ''DS''"
    using format_oe_subject_rewrite [where x = "''CN (OE)''" and s = "''DS''"] q by blast
  with n q r show ?thesis by blast
qed

text \<open>
  C10, as stated: the rewrite is idempotent for every input, because its output never
  begins with \<open>OE-\<close>. The output can begin with \<open>OE-\<close>: removing \<open>(OE)\<close> from
  \<open>O(OE)E-X\<close> joins a new \<open>OE-\<close>, so \<open>OE-O(OE)E-X\<close> becomes \<open>OE-X(OE)-OE\<close>, and a
  second application gives \<open>X-OE(OE)-OE\<close>.
\<close>

theorem format_oe_subject_not_idempotent:
  "format_oe_subject ''OE-O(OE)E-X'' = ''OE-X(OE)-OE''
   \<and> format_oe_subject (format_oe_subject ''OE-O(OE)E-X'') = ''X-OE(OE)-OE''
   \<and> format_oe_subject (format_oe_subject ''OE-O(OE)E-X'') \<noteq> format_oe_subject ''OE-O(OE)E-X''"
  by code_simp

text \<open>
  C10, amended: \<open>format_oe_subject (format_oe_subject s) = format_oe_subject s\<close> for
  every \<open>s\<close> whose rewrite does not begin with \<open>OE-\<close>. That holds for every \<open>s\<close>
  that does not start with \<open>OE-\<close>, and for every \<open>OE-X\<close> in which \<open>X\<close> holds no
  further \<open>OE-\<close> and \<open>X\<close> without its \<open>(OE)\<close>, stripped, does not begin with
  \<open>OE-\<close>.
\<close>

theorem format_oe_subject_idempotent:
  "(\<not> startswith ''OE-'' (format_oe_subject s) \<longrightarrow>
      format_oe_subject (format_oe_subject s) = format_oe_subject s)
   \<and> (\<not> startswith ''OE-'' s \<longrightarrow>
      format_oe_subject (format_oe_subject s) = format_oe_subject s)
   \<and> (\<not> contains ''OE-'' x \<and> \<not> startswith ''OE-'' (strip (str_remove ''(OE)'' x)) \<longrightarrow>
      format_oe_subject (format_oe_subject (''OE-'' @ x)) = format_oe_subject (''OE-'' @ x))"
proof -
  have a: "\<not> startswith ''OE-'' (format_oe_subject s) \<longrightarrow>
      format_oe_subject (format_oe_subject s) = format_oe_subject s"
    by (simp add: format_oe_subject_fixed)
  have b: "\<not> startswith ''OE-'' s \<longrightarrow>
      format_oe_subject (format_oe_subject s) = format_oe_subject s"
    by (simp add: format_oe_subject_fixed)
  have c: "\<not> contains ''OE-'' x \<and> \<not> startswith ''OE-'' (strip (str_remove ''(OE)'' x)) \<longrightarrow>
      format_oe_subject (format_oe_subject (''OE-'' @ x)) = format_oe_subject (''OE-'' @ x)"
  proof
    assume h: "\<not> contains ''OE-'' x \<and> \<not> startswith ''OE-'' (strip (str_remove ''(OE)'' x))"
    let ?b = "strip (str_remove ''(OE)'' x)"
    from h have fs: "format_oe_subject (''OE-'' @ x) = ?b @ ''(OE)-OE''"
      by (intro format_oe_subject_single_prefix) blast
    from h have "\<not> startswith ''OE-'' (?b @ ''(OE)-OE'')"
      by (intro startswith_oe_suffix) blast
    then have "format_oe_subject (?b @ ''(OE)-OE'') = ?b @ ''(OE)-OE''"
      by (rule format_oe_subject_fixed)
    with fs show "format_oe_subject (format_oe_subject (''OE-'' @ x)) = format_oe_subject (''OE-'' @ x)"
      by simp
  qed
  from a b c show ?thesis by blast
qed

theorem format_oe_subject_idempotent_witness:
  "\<not> contains ''OE-'' ''DBMS (OE)'' \<and> \<not> startswith ''OE-'' (strip (str_remove ''(OE)'' ''DBMS (OE)''))
   \<and> format_oe_subject ''OE-DBMS (OE)'' = ''DBMS(OE)-OE''
   \<and> format_oe_subject (format_oe_subject ''OE-DBMS (OE)'') = ''DBMS(OE)-OE''
   \<and> \<not> startswith ''OE-'' ''DS'' \<and> format_oe_subject (format_oe_subject ''DS'') = format_oe_subject ''DS''"
proof -
  have n: "\<not> contains ''OE-'' ''DBMS (OE)''" by code_simp
  have h: "\<not> startswith ''OE-'' (strip (str_remove ''(OE)'' ''DBMS (OE)''))" by code_simp
  have v: "format_oe_subject ''OE-DBMS (OE)'' = ''DBMS(OE)-OE''" by code_simp
  have q: "\<not> startswith ''OE-'' ''DS''" by code_simp
  from format_oe_subject_idempotent [of "''DS''" "''DBMS (OE)''"] n h
  have "format_oe_subject (format_oe_subject (''OE-'' @ ''DBMS (OE)'')) = format_oe_subject (''OE-'' @ ''DBMS (OE)'')"
    by blast
  with v have i: "format_oe_subject (format_oe_subject ''OE-DBMS (OE)'') = ''DBMS(OE)-OE''" by simp
  from format_oe_subject_idempotent [of "''DS''" "''DBMS (OE)''"] q
  have j: "format_oe_subject (format_oe_subject ''DS'') = format_oe_subject ''DS''" by blast
  from n h v i q j show ?thesis by blast
qed

section \<open>The cell coercers\<close>

lemma convert_value_idem: "convert_value B (convert_value B v) = convert_value B v"
proof (induction B v rule: convert_value.induct)
  case (1 B d)
  then show ?case by (simp add: o_def)
next
  case (2 B s)
  then show ?case by (simp add: Let_def split: option.splits)
qed simp_all

text \<open>
  C9: the recursive coercer is idempotent. For every nested mapping \<open>d\<close>, and for any
  behaviour of \<open>int\<close> and \<open>float\<close>, coercing the coerced mapping gives the coerced
  mapping: a string either became a number, which is left alone, or failed both parses
  and fails them again.
\<close>

theorem convert_values_to_number_idempotent:
  "convert_values_to_number B (convert_values_to_number B d) = convert_values_to_number B d"
  by (simp add: convert_values_to_number_def o_def convert_value_idem)

theorem convert_values_to_number_idempotent_witness:
  "convert_values_to_number py
     [(''Name'', VStr ''M.Harshith''), (''Sem'', VStr '' 5 ''), (''CGPA'', VStr ''8.75''),
      (''Blank'', VStr ''  ''), (''Inner'', VDict [(''Year'', VStr ''3'')])]
   = [(''Name'', VStr ''M.Harshith''), (''Sem'', VInt 5), (''CGPA'', VFloat (Decimal 875 2)),
      (''Blank'', VStr ''  ''), (''Inner'', VDict [(''Year'', VInt 3)])]
   \<and> convert_values_to_number py
        [(''Name'', VStr ''M.Harshith''), (''Sem'', VInt 5), (''CGPA'', VFloat (Decimal 875 2)),
         (''Blank'', VStr ''  ''), (''Inner'', VDict [(''Year'', VInt 3)])]
   = [(''Name'', VStr ''M.Harshith''), (''Sem'', VInt 5), (''CGPA'', VFloat (Decimal 875 2)),
      (''Blank'', VStr ''  ''), (''Inner'', VDict [(''Year'', VInt 3)])]"
proof -
  let ?d = "[(''Name'', VStr ''M.Harshith''), (''Sem'', VStr '' 5 ''), (''CGPA'', VStr ''8.75''),
      (''Blank'', VStr ''  ''), (''Inner'', VDict [(''Year'', VStr ''3'')])] :: (string \<times> decimal pyval) list"
  have a: "convert_values_to_number py ?d
     = [(''Name'', VStr ''M.Harshith''), (''Sem'', VInt 5), (''CGPA'', VFloat (Decimal 875 2)),
      (''Blank'', VStr ''  ''), (''Inner'', VDict [(''Year'', VInt 3)])]"
    by code_simp
  from convert_values_to_number_idempotent [of py ?d] a show ?thesis by simp
qed

text \<open>
  C1, as stated: both coercers return an integer, else a float, else the original
  string, and leave an empty or whitespace-only string unchanged. \<open>to_number\<close> does
  not: it returns the number 0 for an empty or whitespace-only string (a lone no-break
  space included), and the stripped string, not the original, when nothing parses.
\<close>

theorem to_number_empty:
  "to_number py (VStr '''') = VInt 0 \<and> to_number py (VStr '''') \<noteq> VStr ''''
   \<and> to_number py (VStr ''  '') = VInt 0
   \<and> to_number py (VStr [CHR 0xA0]) = VInt 0
   \<and> to_number py (VStr '' CS-I '') = VStr ''CS-I''"
  by code_simp

text \<open>
  C1, amended: \<open>convert_values_to_number\<close> replaces a string value by the integer
  its stripped text parses as, else by the float it parses as, else leaves the original
  string, and leaves an empty or whitespace-only string unchanged. \<open>to_number\<close>
  strips the string first; it returns 0 when the string is empty or whitespace only,
  \<open>'-'\<close> when the stripped text is \<open>'-'\<close>, the integer when the text has no point
  and parses as an integer, the float when it has a point and parses as a float, and the
  stripped string otherwise.
\<close>

theorem coercer_contract:
  "(i < length d \<and> d ! i = (k, VStr s) \<longrightarrow>
      convert_values_to_number B d ! i =
        (k, if strip s = [] then VStr s
            else case int_of B (strip s) of
                   Some n \<Rightarrow> VInt n
                 | None \<Rightarrow> (case float_of B (strip s) of Some x \<Rightarrow> VFloat x | None \<Rightarrow> VStr s)))
   \<and> (i < length d \<and> d ! i = (k, VStr s) \<and> (\<forall>c \<in> set s. is_space c) \<longrightarrow>
        convert_values_to_number B d ! i = (k, VStr s))
   \<and> ((\<forall>c \<in> set s. is_space c) \<longrightarrow> to_number B (VStr s) = VInt 0)
   \<and> to_number B (VStr s) =
        (if strip s = [] then VInt 0
         else if strip s = ''-'' then VStr ''-''
         else if CHR ''.'' \<notin> set (strip s)
           then (case int_of B (strip s) of Some n \<Rightarrow> VInt n | None \<Rightarrow> VStr (strip s))
           else (case float_of B (strip s) of Some x \<Rightarrow> VFloat x | None \<Rightarrow> VStr (strip s)))"
  by (simp add: convert_values_to_number_def to_number_def Let_def strip_all_space)

theorem coercer_contract_witness:
  "convert_values_to_number py [(''Name'', VStr '' M.Harshith ''), (''Sem'', VStr ''5'')] ! 1
     = (''Sem'', VInt 5)
   \<and> to_number py (VStr ''7.5'') = VFloat (Decimal 75 1)"
proof -
  let ?d = "[(''Name'', VStr '' M.Harshith ''), (''Sem'', VStr ''5'')] :: (string \<times> decimal pyval) list"
  have h: "1 < length ?d \<and> ?d ! 1 = (''Sem'', VStr ''5'')" by simp
  have s: "strip ''5'' = ''5''" "strip ''7.5'' = ''7.5''" by code_simp+
  have p: "int_of py ''5'' = Some 5" "float_of py ''7.5'' = Some (Decimal 75 1)" by code_simp+
  from coercer_contract [of 1 ?d "''Sem''" "''5''" py] h s p
  have a: "convert_values_to_number py ?d ! 1 = (''Sem'', VInt 5)" by simp
  from coercer_contract [of 1 ?d "''Sem''" "''7.5''" py] s p
  have b: "to_number py (VStr ''7.5'') = VFloat (Decimal 75 1)" by simp
  from a b show ?thesis by blast
qed

section \<open>The student profile\<close>

lemma dict_set_nonempty: "dict_set d k v \<noteq> []"
  by (simp add: dict_set_def)

lemma student_row_nonempty: "data \<noteq> [] \<Longrightarrow> student_row data cols \<noteq> []"
  by (simp add: student_row_def Let_def dict_set_nonempty)

lemma foldl_student_row_nonempty: "data \<noteq> [] \<Longrightarrow> foldl student_row data rows \<noteq> []"
  by (induction rows arbitrary: data) (simp_all add: student_row_nonempty)

lemma foldl_student_row_unusable:
  "\<forall>cols \<in> set rows. length cols < 2 \<or> cols ! 0 = [] \<or> cols ! 1 = []
   \<Longrightarrow> foldl student_row data rows = data"
  by (induction rows arbitrary: data) (auto simp: student_row_def Let_def)

lemma foldl_student_row_usable:
  "\<exists>cols \<in> set rows. 2 \<le> length cols \<and> cols ! 0 \<noteq> [] \<and> cols ! 1 \<noteq> []
   \<Longrightarrow> foldl student_row data rows \<noteq> []"
proof (induction rows arbitrary: data)
  case Nil
  then show ?case by simp
next
  case (Cons r rows)
  show ?case
  proof (cases "2 \<le> length r \<and> r ! 0 \<noteq> [] \<and> r ! 1 \<noteq> []")
    case True
    then have "student_row data r \<noteq> []"
      by (simp add: student_row_def Let_def dict_set_nonempty)
    then show ?thesis by (simp add: foldl_student_row_nonempty)
  next
    case False
    with Cons.prems have "\<exists>cols \<in> set rows. 2 \<le> length cols \<and> cols ! 0 \<noteq> [] \<and> cols ! 1 \<noteq> []"
      by auto
    then show ?thesis using Cons.IH by simp
  qed
qed

text \<open>
  C5: \<open>get_student_info\<close> either raises \<open>CollegePortalError\<close> or returns a
  non-empty mapping, for every HTML text and every parse of it; and it raises when the
  student-info container is absent, when its table is absent, and when no row of the
  table yields a pair (every row has fewer than two cells, or an empty label or value).
\<close>

theorem get_student_info_never_empty:
  "(case get_student_info B html soup of
      Inl e \<Rightarrow> \<exists>msg. e = CollegePortalError 500 msg
    | Inr d \<Rightarrow> d \<noteq> [])
   \<and> (soup = None \<or> soup = Some None
        \<or> (\<exists>rows. soup = Some (Some rows)
              \<and> (\<forall>cols \<in> set rows. length cols < 2 \<or> cols ! 0 = [] \<or> cols ! 1 = []))
       \<longrightarrow> (\<exists>msg. get_student_info B html soup = Inl (CollegePortalError 500 msg)))"
proof -
  have a: "case get_student_info B html soup of
      Inl e \<Rightarrow> \<exists>msg. e = CollegePortalError 500 msg
    | Inr d \<Rightarrow> d \<noteq> []"
    by (simp add: get_student_info_def Let_def convert_values_to_number_def
          split: option.splits)
  have b: "soup = None \<or> soup = Some None
        \<or> (\<exists>rows. soup = Some (Some rows)
              \<and> (\<forall>cols \<in> set rows. length cols < 2 \<or> cols ! 0 = [] \<or> cols ! 1 = []))
       \<longrightarrow> (\<exists>msg. get_student_info B html soup = Inl (CollegePortalError 500 msg))"
    by (auto simp: get_student_info_def Let_def foldl_student_row_unusable)
  from a b show ?thesis by blast
qed

text \<open>
  The other direction: on a non-blank page whose table has a row with a non-empty label
  and value, the profile is returned.
\<close>

lemma get_student_info_returns:
  "html \<noteq> [] \<Longrightarrow> strip html \<noteq> [] \<Longrightarrow>
   \<exists>cols \<in> set rows. 2 \<le> length cols \<and> cols ! 0 \<noteq> [] \<and> cols ! 1 \<noteq> [] \<Longrightarrow>
   \<exists>d. get_student_info B html (Some (Some rows)) = Inr d \<and> d \<noteq> []"
  by (simp add: get_student_info_def Let_def foldl_student_row_usable convert_values_to_number_def)


theorem get_student_info_never_empty_witness:
  "get_student_info py ''<html>'' (Some (Some [[''Student Details''], [''Name'', ''M.Harshith''], [''Sem'', ''5'']]))
     = Inr [(''Name'', VStr ''M.Harshith''), (''Sem'', VInt 5)]
   \<and> get_student_info py ''<html>'' (Some (Some [[''Student Details''], [''Hostel'', '''']]))
     = Inl (CollegePortalError 500 ''No student data found in ERP dashboard table.'')
   \<and> get_student_info py ''<html>'' None
     = Inl (CollegePortalError 500 ''Student information section not found in ERP dashboard.'')"
proof -
  let ?rows = "[[''Student Details''], [''Hostel'', '''']]"
  have u: "\<forall>cols \<in> set ?rows. length cols < 2 \<or> cols ! 0 = [] \<or> cols ! 1 = []" by simp
  from get_student_info_never_empty [of py "''<html>''" "Some (Some ?rows)"] u
  have "\<exists>msg. get_student_info py ''<html>'' (Some (Some ?rows)) = Inl (CollegePortalError 500 msg)"
    by blast
  moreover have "get_student_info py ''<html>'' (Some (Some ?rows))
     = Inl (CollegePortalError 500 ''No student data found in ERP dashboard table.'')"
    by code_simp
  moreover have "get_student_info py ''<html>'' (Some (Some [[''Student Details''], [''Name'', ''M.Harshith''], [''Sem'', ''5'']]))
     = Inr [(''Name'', VStr ''M.Harshith''), (''Sem'', VInt 5)]"
    by code_simp
  moreover have "get_student_info py ''<html>'' None
     = Inl (CollegePortalError 500 ''Student information section not found in ERP dashboard.'')"
    by code_simp
  ultimately show ?thesis by blast
qed

section \<open>The attendance page\<close>

text \<open>
  C6: when either summary table, or the inner \<open>tableclass\<close> table of either, is
  absent, \<open>get_attendance_subjects\<close> does not raise: it returns two empty matrices
  and the image URL it found (the \<open>src\<close> of the first \<open>img\<close>, or nothing).
\<close>

theorem get_attendance_subjects_missing_table:
  "sub_summary_table soup = None \<or> total_summary_table soup = None
   \<or> sub_summary_table soup = Some None \<or> total_summary_table soup = Some None
   \<Longrightarrow> get_attendance_subjects B soup =
        Inr ([], [], case img_tag soup of Some (Some src) \<Rightarrow> Some src | _ \<Rightarrow> None)"
  by (auto simp: get_attendance_subjects_def Let_def split: option.splits)

theorem get_attendance_subjects_missing_table_witness:
  "get_attendance_subjects py
     \<lparr>img_tag = Some (Some ''photo.jpg''), sub_summary_table = Some (Some [[''Classes'', ''DS'']]),
      total_summary_table = Some None\<rparr> = Inr ([], [], Some ''photo.jpg'')"
  using get_attendance_subjects_missing_table [of "\<lparr>img_tag = Some (Some ''photo.jpg''), sub_summary_table = Some (Some [[''Classes'', ''DS'']]),
      total_summary_table = Some None\<rparr>" py]
  by simp

section \<open>The dashboard handler\<close>

text \<open>
  C7: a dashboard request that misses the cache and whose fetched dashboard HTML lacks
  the text \<open>Logout\<close> raises \<open>HTTPException(401, "Session expired")\<close>. The only
  request made is the one for the dashboard page, whatever \<open>fetch_dashboard_data\<close>
  would do (it is not called), and the cache is left as it was.
\<close>

theorem dashboard_session_expired:
  "cache st (''erp:session:'' @ session_id) = None \<Longrightarrow>
   \<not> contains ''Logout'' (http_get DASHBOARD_URL) \<Longrightarrow>
   dashboard http_get fetch_dashboard_data st session_id =
     (Inl (HTTPException 401 ''Session expired''), st\<lparr>requests := requests st @ [DASHBOARD_URL]\<rparr>)"
  by (simp add: dashboard_def Let_def)

theorem dashboard_session_expired_witness:
  "dashboard (\<lambda>url. ''<html>Please sign in</html>'')
     (\<lambda>html sid reqs. (Inr \<lparr>dashboardData = (1::nat), hiddenFields = []\<rparr>,
                         reqs @ [''attendance'', ''marks'']))
     \<lparr>cache = (\<lambda>k. None), requests = []\<rparr> ''abc''
   = (Inl (HTTPException 401 ''Session expired''),
      \<lparr>cache = (\<lambda>k. None), requests = [DASHBOARD_URL]\<rparr>)"
proof -
  have n: "\<not> contains ''Logout'' ((\<lambda>url. ''<html>Please sign in</html>'') DASHBOARD_URL)"
    by code_simp
  have c: "cache \<lparr>cache = (\<lambda>k. None :: nat document option), requests = []\<rparr>
             (''erp:session:'' @ ''abc'') = None"
    by simp
  from dashboard_session_expired [OF c n] show ?thesis by simp
qed

text \<open>
  For contrast, the two other paths of the handler: a cache hit answers from the cache
  without any request, and an authenticated page is handed to \<open>fetch_dashboard_data\<close>,
  whose document is stored under the session key.
\<close>

lemma dashboard_cache_hit:
  "cache st (''erp:session:'' @ session_id) = Some doc \<Longrightarrow>
   dashboard http_get fetch_dashboard_data st session_id = (Inr (dashboardData doc), st)"
  by (simp add: dashboard_def Let_def)

lemma dashboard_authenticated:
  "cache st (''erp:session:'' @ session_id) = None \<Longrightarrow>
   contains ''Logout'' (http_get DASHBOARD_URL) \<Longrightarrow>
   fetch_dashboard_data (http_get DASHBOARD_URL) session_id (requests st @ [DASHBOARD_URL])
     = (Inr doc, reqs) \<Longrightarrow>
   dashboard http_get fetch_dashboard_data st session_id =
     (Inr (dashboardData doc),
      st\<lparr>requests := reqs, cache := (cache st)(''erp:session:'' @ session_id \<mapsto> doc)\<rparr>)"
  by (simp add: dashboard_def Let_def)

section \<open>Dictionaries\<close>

lemma keys_convert_values_to_number: "keys (convert_values_to_number B d) = keys d"
  by (simp add: keys_def convert_values_to_number_def o_def)

lemma set_dict_set: "set (dict_set d k v) \<subseteq> insert (k, v) (set d)"
  unfolding dict_set_def by (induction d) auto

lemma dict_set_fresh: "k \<notin> fst ` set d \<Longrightarrow> dict_set d k v = d @ [(k, v)]"
  unfolding dict_set_def by (induction d) auto

lemma keys_foldl_dict_set:
  "fst ` set (foldl (\<lambda>d (k, v). dict_set d k v) acc kvs) = fst ` set acc \<union> fst ` set kvs"
proof (induction kvs arbitrary: acc)
  case Nil
  then show ?case by simp
next
  case (Cons kv kvs)
  obtain k v where kv: "kv = (k, v)" by (cases kv)
  have "fst ` set (dict_set acc k v) = {k} \<union> fst ` set acc"
    by (simp add: dict_set_def dom_update)
  with Cons.IH [of "dict_set acc k v"] kv show ?case by auto
qed

lemma keys_dict_of: "set (keys (dict_of kvs)) = fst ` set kvs"
  by (simp add: dict_of_def keys_def keys_foldl_dict_set)

lemma foldl_dict_set_distinct:
  "distinct (map fst acc @ map fst kvs)
   \<Longrightarrow> foldl (\<lambda>d (k, v). dict_set d k v) acc kvs = acc @ kvs"
proof (induction kvs arbitrary: acc)
  case Nil
  then show ?case by simp
next
  case (Cons kv kvs)
  obtain k v where kv: "kv = (k, v)" by (cases kv)
  from Cons.prems kv have fresh: "k \<notin> fst ` set acc" by auto
  then have step: "dict_set acc k v = acc @ [(k, v)]" by (rule dict_set_fresh)
  from Cons.prems kv have "distinct (map fst (acc @ [(k, v)]) @ map fst kvs)" by auto
  from Cons.IH [OF this] step kv show ?case by simp
qed

lemma dict_of_distinct: "distinct (map fst kvs) \<Longrightarrow> dict_of kvs = kvs"
  using foldl_dict_set_distinct [of "[]" kvs] by (simp add: dict_of_def)

lemma map_of_dict_set: "map_of (dict_set d k v) = (map_of d)(k \<mapsto> v)"
  by (simp add: dict_set_def update_conv')

lemma distinct_dict_set: "distinct (map fst d) \<Longrightarrow> distinct (map fst (dict_set d k v))"
  by (simp add: dict_set_def distinct_update)

lemma map_of_foldl_dict_set:
  "map_of (foldl (\<lambda>d (k, v). dict_set d k v) acc kvs) = map_of acc ++ map_of (rev kvs)"
proof (induction kvs arbitrary: acc)
  case Nil
  then show ?case by simp
next
  case (Cons kv kvs)
  obtain k v where kv: "kv = (k, v)" by (cases kv)
  have "map_of (foldl (\<lambda>d (k, v). dict_set d k v) acc (kv # kvs))
        = map_of (dict_set acc k v) ++ map_of (rev kvs)"
    using Cons.IH [of "dict_set acc k v"] kv by simp
  also have "\<dots> = (map_of acc)(k \<mapsto> v) ++ map_of (rev kvs)"
    by (simp add: map_of_dict_set)
  also have "\<dots> = map_of acc ++ map_of (rev (kv # kvs))"
    by (rule ext) (simp add: kv map_add_def split: option.splits)
  finally show ?case .
qed

lemma map_of_dict_of: "map_of (dict_of kvs) = map_of (rev kvs)"
  by (simp add: dict_of_def map_of_foldl_dict_set)

lemma distinct_foldl_dict_set:
  "distinct (map fst acc) \<Longrightarrow> distinct (map fst (foldl (\<lambda>d (k, v). dict_set d k v) acc kvs))"
  by (induction kvs arbitrary: acc) (auto simp: distinct_dict_set)

lemma distinct_keys_dict_of: "distinct (keys (dict_of kvs))"
  by (simp add: keys_def dict_of_def distinct_foldl_dict_set)

lemma map_of_convert_values_to_number:
  "map_of (convert_values_to_number B d) k = map_option (convert_value B) (map_of d k)"
  unfolding convert_values_to_number_def
  by (induction d) (auto simp del: convert_value.simps)

lemma map_of_rev_last:
  "j < length kvs \<Longrightarrow> \<forall>i. j < i \<and> i < length kvs \<longrightarrow> fst (kvs ! i) \<noteq> fst (kvs ! j)
   \<Longrightarrow> map_of (rev kvs) (fst (kvs ! j)) = Some (snd (kvs ! j))"
proof (induction kvs rule: rev_induct)
  case Nil
  then show ?case by simp
next
  case (snoc x xs)
  show ?case
  proof (cases "j = length xs")
    case True
    then show ?thesis by simp
  next
    case False
    with snoc.prems(1) have j: "j < length xs" by simp
    from j have "j < length xs \<and> length xs < length (xs @ [x])" by simp
    with snoc.prems(2) have "fst ((xs @ [x]) ! length xs) \<noteq> fst ((xs @ [x]) ! j)"
      by blast
    with j have ne: "fst x \<noteq> fst (xs ! j)" by (simp add: nth_append)
    have "\<forall>i. j < i \<and> i < length xs \<longrightarrow> fst (xs ! i) \<noteq> fst (xs ! j)"
    proof (intro allI impI)
      fix i assume i: "j < i \<and> i < length xs"
      then have "j < i \<and> i < length (xs @ [x])" by simp
      with snoc.prems(2) have "fst ((xs @ [x]) ! i) \<noteq> fst ((xs @ [x]) ! j)" by blast
      with i j show "fst (xs ! i) \<noteq> fst (xs ! j)" by (simp add: nth_append)
    qed
    with snoc.IH j have "map_of (rev xs) (fst (xs ! j)) = Some (snd (xs ! j))" by blast
    with ne j show ?thesis by (simp add: nth_append)
  qed
qed

section \<open>The attendance matrices\<close>

lemma kept_names_not_eca:
  "n \<in> set (map (\<lambda>i. full ! i) (keep_indices full)) \<Longrightarrow> \<not> startswith ''ECA'' (upper n)"
  by (auto simp: keep_indices_def)

lemma row_mapping_keys:
  "set (keys (row_mapping B names keep vals)) \<subseteq> set names"
  by (auto simp: row_mapping_def keys_convert_values_to_number keys_dict_of dest: set_zip_leftD)

lemma rows_within_dict_set:
  "rows_within names m \<Longrightarrow> set (keys r) \<subseteq> set names \<Longrightarrow> rows_within names (dict_set m t r)"
  unfolding rows_within_def using set_dict_set [of m t r] by auto

lemma rows_within_sub_row:
  "rows_within names acc \<Longrightarrow> rows_within names (sub_row B names keep acc cells)"
  by (simp add: sub_row_def rows_within_dict_set row_mapping_keys)

lemma rows_within_foldl_sub_row:
  "rows_within names acc \<Longrightarrow> rows_within names (foldl (sub_row B names keep) acc rows)"
  by (induction rows arbitrary: acc) (simp_all add: rows_within_sub_row)

lemma rows_within_total_rows_loop:
  "rows_within names acc \<Longrightarrow> total_rows_loop B names keep acc rows = Inr m
   \<Longrightarrow> rows_within names m"
proof (induction B names keep acc rows rule: total_rows_loop.induct)
  case (1 B names keep acc)
  then show ?case by simp
next
  case (2 B names keep acc cells rows)
  show ?case
  proof (cases "cells = []")
    case True
    with 2 show ?thesis by simp
  next
    case False
    with "2.prems" have len: "\<not> length cells < 2" by (auto split: if_splits)
    let ?acc = "dict_set acc (cells ! 1) (row_mapping B names keep (drop 2 cells))"
    have "rows_within names ?acc"
      using "2.prems"(1) by (simp add: rows_within_dict_set row_mapping_keys)
    moreover have "total_rows_loop B names keep ?acc rows = Inr m"
      using "2.prems"(2) False len by simp
    ultimately show ?thesis using "2.IH"(2) False len by blast
  qed
qed

text \<open>
  C3: in whatever \<open>get_attendance_subjects\<close> returns, no key of any per-row mapping,
  in the per-subject matrix or in the totals matrix, is a name whose upper-case form
  begins with \<open>ECA\<close>.
\<close>

theorem attendance_keys_exclude_eca:
  assumes res: "get_attendance_subjects B soup = Inr (sub, tot, img)"
    and row: "(t, r) \<in> set sub \<union> set tot"
    and key: "k \<in> set (keys r)"
  shows "\<not> startswith ''ECA'' (upper k)"
proof -
  have empty: "rows_within names ([] :: 'a matrix)" for names
    by (simp add: rows_within_def)
  have "\<exists>names. (\<forall>n \<in> set names. \<not> startswith ''ECA'' (upper n)) \<and> set (keys r) \<subseteq> set names"
  proof (cases "sub_summary_table soup")
    case None
    with res row show ?thesis by (simp add: get_attendance_subjects_def Let_def)
  next
    case (Some si)
    note s1 = this
    show ?thesis
    proof (cases "total_summary_table soup")
      case None
      with res row s1 show ?thesis by (simp add: get_attendance_subjects_def Let_def)
    next
      case (Some ti)
      note s2 = this
      show ?thesis
      proof (cases si)
        case None
        with res row s1 s2 show ?thesis by (simp add: get_attendance_subjects_def Let_def)
      next
        case (Some sub_rows)
        note s3 = this
        show ?thesis
        proof (cases ti)
          case None
          with res row s1 s2 s3 show ?thesis by (simp add: get_attendance_subjects_def Let_def)
        next
          case (Some total_rows)
          note s4 = this
          show ?thesis
          proof (cases "sub_rows = [] \<or> total_rows = []")
            case True
            with res row s1 s2 s3 s4 show ?thesis
              by (auto simp: get_attendance_subjects_def Let_def convert_matrix_def)
          next
            case False
            let ?full = "normalized_names (drop 1 (sub_rows ! 0))"
            let ?names = "map (\<lambda>i. ?full ! i) (keep_indices ?full)"
            let ?tfull = "normalized_names (drop 2 (total_rows ! 0))"
            let ?tnames = "map (\<lambda>i. ?tfull ! i) (keep_indices ?tfull)"
            from res s1 s2 s3 s4 False
            have sub: "sub = foldl (sub_row B ?names (keep_indices ?full)) [] (drop 1 sub_rows)"
              and tot: "total_rows_loop B ?tnames (keep_indices ?tfull) [] (drop 1 total_rows) = Inr tot"
              by (auto simp: get_attendance_subjects_def Let_def split: sum.splits)
            have a: "rows_within ?names sub"
              unfolding sub by (rule rows_within_foldl_sub_row) (rule empty)
            have b: "rows_within ?tnames tot"
              using empty tot by (rule rows_within_total_rows_loop)
            from row show ?thesis
            proof
              assume "(t, r) \<in> set sub"
              with a have "set (keys r) \<subseteq> set ?names" by (auto simp: rows_within_def)
              moreover have "\<forall>n \<in> set ?names. \<not> startswith ''ECA'' (upper n)"
                using kept_names_not_eca by blast
              ultimately show ?thesis by blast
            next
              assume "(t, r) \<in> set tot"
              with b have "set (keys r) \<subseteq> set ?tnames" by (auto simp: rows_within_def)
              moreover have "\<forall>n \<in> set ?tnames. \<not> startswith ''ECA'' (upper n)"
                using kept_names_not_eca by blast
              ultimately show ?thesis by blast
            qed
          qed
        qed
      qed
    qed
  qed
  with key show ?thesis by blast
qed


theorem attendance_keys_exclude_eca_witness:
  "get_attendance_subjects py
     \<lparr>img_tag = Some (Some ''photo.jpg''),
      sub_summary_table = Some (Some [[''Classes'', ''DS'', ''eca-1'', ''OE-CN(OE)''],
                                      [''Held Classes'', ''10'', ''3'', ''7'']]),
      total_summary_table = Some (Some [[''Sl'', ''Classes'', ''Theory'', ''ECA''],
                                        [''1'', ''Held Classes'', ''17'', ''3'']])\<rparr>
     = Inr ([(''Held Classes'', [(''DS'', VInt 10), (''CN(OE)-OE'', VInt 7)])],
            [(''Held Classes'', [(''Theory'', VInt 17)])], Some ''photo.jpg'')
   \<and> \<not> startswith ''ECA'' (upper ''CN(OE)-OE'')"
proof -
  let ?soup = "\<lparr>img_tag = Some (Some ''photo.jpg''),
      sub_summary_table = Some (Some [[''Classes'', ''DS'', ''eca-1'', ''OE-CN(OE)''],
                                      [''Held Classes'', ''10'', ''3'', ''7'']]),
      total_summary_table = Some (Some [[''Sl'', ''Classes'', ''Theory'', ''ECA''],
                                        [''1'', ''Held Classes'', ''17'', ''3'']])\<rparr>"
  let ?r = "[(''DS'', VInt 10), (''CN(OE)-OE'', VInt 7)] :: (string \<times> decimal pyval) list"
  let ?sub = "[(''Held Classes'', ?r)]"
  let ?tot = "[(''Held Classes'', [(''Theory'', VInt 17)])] :: decimal matrix"
  have res: "get_attendance_subjects py ?soup = Inr (?sub, ?tot, Some ''photo.jpg'')"
    by code_simp
  have row: "(''Held Classes'', ?r) \<in> set ?sub \<union> set ?tot" by simp
  have key: "''CN(OE)-OE'' \<in> set (keys ?r)" by (simp add: keys_def)
  from attendance_keys_exclude_eca [OF res row key] res show ?thesis by blast
qed

lemma filter_less_sorted:
  "sorted keep \<Longrightarrow> filter (\<lambda>i. i < m) keep = takeWhile (\<lambda>i. i < (m::nat)) keep"
proof (induction keep)
  case Nil
  then show ?case by simp
next
  case (Cons a keep)
  show ?case
  proof (cases "a < m")
    case True
    with Cons show ?thesis by simp
  next
    case False
    with Cons.prems have "\<forall>x \<in> set keep. \<not> x < m" by auto
    then have "filter (\<lambda>i. i < m) keep = []" by (simp add: filter_empty_conv)
    with False show ?thesis by simp
  qed
qed

lemma sorted_keep_indices: "sorted (keep_indices full)"
  unfolding keep_indices_def by (rule sorted_wrt_filter) simp

lemma filtered_values_nth:
  assumes "sorted keep" and "j < length (filtered_values keep vals)"
  shows "filtered_values keep vals ! j = vals ! (keep ! j)"
proof -
  let ?tw = "takeWhile (\<lambda>i. i < length vals) keep"
  have fv: "filtered_values keep vals = map (\<lambda>i. vals ! i) ?tw"
    using assms(1) by (simp add: filtered_values_def filter_less_sorted)
  with assms(2) have j: "j < length ?tw" by simp
  then have "?tw ! j = keep ! j" by (rule takeWhile_nth)
  with fv j show ?thesis by simp
qed

lemma filtered_values_length: "length (filtered_values keep vals) \<le> length keep"
  by (simp add: filtered_values_def)

lemma row_mapping_distinct:
  assumes "n = min (length names) (length fv)" and "distinct (take n names)"
  shows "convert_values_to_number B (dict_of (zip names (map VStr fv)))
         = zip (take n names) (map (\<lambda>v. convert_value B (VStr v)) (take n fv))"
proof -
  let ?kvs = "zip names (map VStr fv) :: (string \<times> 'a pyval) list"
  have "map fst ?kvs = take n names"
    using assms(1) by (simp add: map_fst_zip_take)
  with assms(2) have "dict_of ?kvs = ?kvs"
    by (intro dict_of_distinct) simp
  moreover have "map (\<lambda>kv. (fst kv, convert_value B (snd kv))) ?kvs
        = zip (take n names) (map (\<lambda>v. convert_value B (VStr v)) (take n fv))"
    using assms(1)
    by (intro nth_equalityI) (auto simp: min_def simp del: convert_value.simps)
  ultimately show ?thesis by (simp add: convert_values_to_number_def)
qed

text \<open>
  C4, as stated: every row with fewer retained values than retained names gives a
  mapping with as many entries as the shorter list. A \<open>dict\<close> holds a key once, so
  when the header repeats a name the mapping is shorter: with the header
  \<open>DS, DS, CN\<close> and the two values \<open>1, 2\<close> the mapping has the single entry
  \<open>DS: 2\<close>.
\<close>

theorem attendance_row_repeated_name:
  "get_attendance_subjects py
     \<lparr>img_tag = None,
      sub_summary_table = Some (Some [[''Classes'', ''DS'', ''DS'', ''CN''], [''Held Classes'', ''1'', ''2'']]),
      total_summary_table = Some (Some [[''Sl'', ''Classes'', ''Theory'']])\<rparr>
     = Inr ([(''Held Classes'', [(''DS'', VInt 2)])], [], None)
   \<and> keep_indices (normalized_names [''DS'', ''DS'', ''CN'']) = [0, 1, 2]
   \<and> filtered_values [0, 1, 2] [''1'', ''2''] = [''1'', ''2'']
   \<and> row_mapping py [''DS'', ''DS'', ''CN''] [0, 1, 2] [''1'', ''2''] = [(''DS'', VInt 2)]
   \<and> length (row_mapping py [''DS'', ''DS'', ''CN''] [0, 1, 2] [''1'', ''2''])
        \<noteq> min (length [''DS'', ''DS'', ''CN'']) (length (filtered_values [0, 1, 2] [''1'', ''2'']))"
  by code_simp

text \<open>
  C4, amended: for a data row, let the retained names be the header names at the kept
  indices, the retained values the row's values at the kept indices that exist, and
  \<open>n\<close> the length of the shorter list. The row mapping has one entry for each
  distinct name among the first \<open>n\<close> retained names, and binds a name to the coerced
  value at the kept index of its last occurrence among them. When these \<open>n\<close> names are
  pairwise distinct, the mapping has exactly \<open>n\<close> entries and its \<open>j\<close>-th entry pairs
  the \<open>j\<close>-th retained name with the coerced value at the \<open>j\<close>-th kept index.
\<close>

theorem attendance_row_truncation:
  assumes keep: "keep = keep_indices full"
    and names: "names = map (\<lambda>i. full ! i) keep"
    and n: "n = min (length names) (length (filtered_values keep vals))"
  shows "distinct (keys (row_mapping B names keep vals))
     \<and> set (keys (row_mapping B names keep vals)) = set (take n names)
     \<and> length (row_mapping B names keep vals) = card (set (take n names))
     \<and> (\<forall>j<n. (\<forall>i<n. j < i \<longrightarrow> names ! i \<noteq> names ! j) \<longrightarrow>
           map_of (row_mapping B names keep vals) (names ! j)
             = Some (convert_value B (VStr (vals ! (keep ! j)))))
     \<and> (distinct (take n names) \<longrightarrow>
           length (row_mapping B names keep vals) = n
           \<and> (\<forall>j<n. row_mapping B names keep vals ! j
                       = (names ! j, convert_value B (VStr (vals ! (keep ! j))))))"
proof -
  let ?fv = "filtered_values keep vals"
  let ?kvs = "zip names (map VStr ?fv) :: (string \<times> 'a pyval) list"
  let ?rm = "row_mapping B names keep vals"
  have sorted: "sorted keep" using keep by (simp add: sorted_keep_indices)
  have fst_kvs: "map fst ?kvs = take n names"
    using n by (simp add: map_fst_zip_take)
  have len_kvs: "length ?kvs = n" using n by simp
  have nth_kvs: "?kvs ! j = (names ! j, VStr (vals ! (keep ! j)))" if "j < n" for j
  proof -
    from that n have j1: "j < length names" and j2: "j < length ?fv" by simp_all
    have "?fv ! j = vals ! (keep ! j)" using sorted j2 by (rule filtered_values_nth)
    with j1 j2 show ?thesis by simp
  qed
  have keys_rm: "keys ?rm = keys (dict_of ?kvs)"
    by (simp add: row_mapping_def keys_convert_values_to_number)
  have a: "distinct (keys ?rm)"
    unfolding keys_rm by (rule distinct_keys_dict_of)
  have b: "set (keys ?rm) = set (take n names)"
    unfolding keys_rm keys_dict_of using fst_kvs by (metis set_map)
  have "length ?rm = length (keys ?rm)" by (simp add: keys_def)
  also have "\<dots> = card (set (keys ?rm))" using a by (simp add: distinct_card)
  finally have c: "length ?rm = card (set (take n names))" using b by simp
  have d: "map_of ?rm (names ! j) = Some (convert_value B (VStr (vals ! (keep ! j))))"
    if j: "j < n" and last: "\<forall>i<n. j < i \<longrightarrow> names ! i \<noteq> names ! j" for j
  proof -
    have "\<forall>i. j < i \<and> i < length ?kvs \<longrightarrow> fst (?kvs ! i) \<noteq> fst (?kvs ! j)"
    proof (intro allI impI)
      fix i assume i: "j < i \<and> i < length ?kvs"
      with len_kvs have "i < n" by simp
      with i last j nth_kvs [of i] nth_kvs [of j]
      show "fst (?kvs ! i) \<noteq> fst (?kvs ! j)" by simp
    qed
    with j len_kvs have "map_of (rev ?kvs) (fst (?kvs ! j)) = Some (snd (?kvs ! j))"
      by (intro map_of_rev_last) simp_all
    with nth_kvs [OF j] have "map_of (dict_of ?kvs) (names ! j) = Some (VStr (vals ! (keep ! j)))"
      by (simp add: map_of_dict_of)
    then show ?thesis
      by (simp add: row_mapping_def map_of_convert_values_to_number del: convert_value.simps)
  qed
  have e: "length ?rm = n
           \<and> (\<forall>j<n. ?rm ! j = (names ! j, convert_value B (VStr (vals ! (keep ! j)))))"
    if dist: "distinct (take n names)"
  proof -
    have rm: "?rm = zip (take n names) (map (\<lambda>v. convert_value B (VStr v)) (take n ?fv))"
      unfolding row_mapping_def using n dist by (rule row_mapping_distinct)
    have len: "length ?rm = n" using rm n by simp
    have nth: "?rm ! j = (names ! j, convert_value B (VStr (vals ! (keep ! j))))" if "j < n" for j
    proof -
      from that n have j1: "j < length names" and j2: "j < length ?fv" by simp_all
      have "?fv ! j = vals ! (keep ! j)" using sorted j2 by (rule filtered_values_nth)
      with rm that j1 j2 show ?thesis by (simp del: convert_value.simps)
    qed
    from len nth show ?thesis by blast
  qed
  from a b c d e show ?thesis by blast
qed

theorem attendance_row_truncation_witness:
  "keep_indices [''DS'', ''ECA-1'', ''CN'', ''AI(OE)-OE''] = [0, 2, 3]
   \<and> filtered_values [0, 2, 3] [''10'', ''4'', ''8''] = [''10'', ''8'']
   \<and> length (row_mapping py [''DS'', ''CN'', ''AI(OE)-OE''] [0, 2, 3] [''10'', ''4'', ''8'']) = 2
   \<and> row_mapping py [''DS'', ''CN'', ''AI(OE)-OE''] [0, 2, 3] [''10'', ''4'', ''8''] ! 0 = (''DS'', VInt 10)
   \<and> row_mapping py [''DS'', ''CN'', ''AI(OE)-OE''] [0, 2, 3] [''10'', ''4'', ''8''] ! 1 = (''CN'', VInt 8)
   \<and> keep_indices [''DS'', ''DS'', ''CN''] = [0, 1, 2]
   \<and> filtered_values [0, 1, 2] [''1'', ''2''] = [''1'', ''2'']
   \<and> map_of (row_mapping py [''DS'', ''DS'', ''CN''] [0, 1, 2] [''1'', ''2'']) ''DS'' = Some (VInt 2)"
proof -
  let ?full = "[''DS'', ''ECA-1'', ''CN'', ''AI(OE)-OE'']"
  let ?names = "[''DS'', ''CN'', ''AI(OE)-OE'']"
  let ?vals = "[''10'', ''4'', ''8'']"
  let ?rm = "row_mapping py ?names [0, 2, 3] ?vals"
  have keep: "[0, 2, 3] = keep_indices ?full" by code_simp
  have names: "?names = map (\<lambda>i. ?full ! i) [0, 2, 3]" by simp
  have fv: "filtered_values [0, 2, 3] ?vals = [''10'', ''8'']" by code_simp
  have n: "(2::nat) = min (length ?names) (length (filtered_values [0, 2, 3] ?vals))"
    unfolding fv by simp
  have dist: "distinct (take 2 ?names)" by (simp add: numeral_2_eq_2)
  have v0: "convert_value py (VStr (?vals ! ([0, 2, 3] ! 0))) = VInt 10" by code_simp
  have v1: "convert_value py (VStr (?vals ! ([0, 2, 3] ! 1))) = VInt 8" by code_simp
  from attendance_row_truncation [OF keep names n, of py] dist
  have len: "length ?rm = 2"
    and nth: "\<forall>j<2. ?rm ! j = (?names ! j, convert_value py (VStr (?vals ! ([0, 2, 3] ! j))))"
    by blast+
  from nth v0 have e0: "?rm ! 0 = (''DS'', VInt 10)" by (simp del: convert_value.simps)
  from nth v1 have e1: "?rm ! 1 = (''CN'', VInt 8)" by (simp del: convert_value.simps)
  let ?names2 = "[''DS'', ''DS'', ''CN'']"
  let ?vals2 = "[''1'', ''2'']"
  let ?rm2 = "row_mapping py ?names2 [0, 1, 2] ?vals2"
  have keep2: "[0, 1, 2] = keep_indices ?names2" by code_simp
  have names2: "?names2 = map (\<lambda>i. ?names2 ! i) [0, 1, 2]" by simp
  have fv2: "filtered_values [0, 1, 2] ?vals2 = [''1'', ''2'']" by code_simp
  have n2: "(2::nat) = min (length ?names2) (length (filtered_values [0, 1, 2] ?vals2))"
    unfolding fv2 by simp
  have last2: "\<forall>i<2. (1::nat) < i \<longrightarrow> ?names2 ! i \<noteq> ?names2 ! 1" by auto
  have w2: "convert_value py (VStr (?vals2 ! ([0, 1, 2] ! 1))) = VInt 2" by code_simp
  have lt: "(1::nat) < 2" by simp
  from attendance_row_truncation [OF keep2 names2 n2, of py]
  have "\<forall>j<2. (\<forall>i<2. j < i \<longrightarrow> ?names2 ! i \<noteq> ?names2 ! j) \<longrightarrow>
           map_of ?rm2 (?names2 ! j) = Some (convert_value py (VStr (?vals2 ! ([0, 1, 2] ! j))))"
    by blast
  with last2 lt
  have "map_of ?rm2 (?names2 ! 1) = Some (convert_value py (VStr (?vals2 ! ([0, 1, 2] ! 1))))"
    by blast
  with w2 have m2: "map_of ?rm2 ''DS'' = Some (VInt 2)" by (simp del: convert_value.simps)
  from keep fv len e0 e1 keep2 fv2 m2 show ?thesis by simp
qed

section \<open>The sessional entries of a marks row\<close>

lemma sessional_prefix_excludes:
  assumes "startswith ''SessionalMarks'' h"
  shows "\<not> startswith ''Int'' h \<and> \<not> startswith ''Quiz'' h \<and> \<not> startswith ''Asst'' h"
proof -
  from assms obtain r where "h = CHR ''S'' # r"
    by (cases h) (auto simp: startswith_def)
  then show ?thesis by (simp add: startswith_def)
qed

lemma sessional_route_cell: "sessional (fst (route_cell B st col)) = sessional (fst st)"
  by (cases st; cases col; cases "fst col")
     (auto simp: route_cell_def Let_def split: sub_type.splits)

lemma sessional_foldl_route_cell:
  "sessional (fst (foldl (route_cell B) st cols)) = sessional (fst st)"
  by (induction cols arbitrary: st) (simp_all add: sessional_route_cell)

lemma distinct_route_cell:
  "distinct (map fst (snd st)) \<Longrightarrow> distinct (map fst (snd (route_cell B st col)))"
  by (cases st; cases col; cases "fst col")
     (auto simp: route_cell_def Let_def distinct_dict_set split: sub_type.splits)

lemma distinct_foldl_route_cell:
  "distinct (map fst (snd st)) \<Longrightarrow> distinct (map fst (snd (foldl (route_cell B) st cols)))"
  by (induction cols arbitrary: st) (simp_all add: distinct_route_cell)

lemma sessional_add_component:
  "startswith ''SessionalMarks'' h \<Longrightarrow>
   (\<exists>e \<in> set (sessional (add_component B subject (name, vals))). comp_name e = h)
   \<longleftrightarrow> (\<exists>e \<in> set (sessional subject). comp_name e = h)
        \<or> (name = h \<and> \<not> in_dash_zero B (get_default (fst vals) (VInt 0))
                     \<and> \<not> in_dash_zero B (get_default (snd vals) (VInt 0)))"
  using sessional_prefix_excludes [of h]
  by (auto simp: add_component_def Let_def)

lemma sessional_foldl_add_component:
  assumes h: "startswith ''SessionalMarks'' h"
  shows "(\<exists>e \<in> set (sessional (foldl (add_component B) subject temp)). comp_name e = h)
   \<longleftrightarrow> (\<exists>e \<in> set (sessional subject). comp_name e = h)
        \<or> (\<exists>vals. (h, vals) \<in> set temp
              \<and> \<not> in_dash_zero B (get_default (fst vals) (VInt 0))
              \<and> \<not> in_dash_zero B (get_default (snd vals) (VInt 0)))"
proof -
  define P where "P = (\<lambda>vals. \<not> in_dash_zero B (get_default (fst vals) (VInt 0))
              \<and> \<not> in_dash_zero B (get_default (snd vals) (VInt 0)))"
  have step: "(\<exists>e \<in> set (sessional (add_component B subj (name, vals))). comp_name e = h)
      \<longleftrightarrow> (\<exists>e \<in> set (sessional subj). comp_name e = h) \<or> (name = h \<and> P vals)"
    for subj name vals
    unfolding P_def by (rule sessional_add_component [OF h])
  have "(\<exists>e \<in> set (sessional (foldl (add_component B) subject temp)). comp_name e = h)
   \<longleftrightarrow> (\<exists>e \<in> set (sessional subject). comp_name e = h) \<or> (\<exists>vals. (h, vals) \<in> set temp \<and> P vals)"
  proof (induction temp arbitrary: subject)
    case Nil
    then show ?case by simp
  next
    case (Cons item temp)
    obtain name vals where item: "item = (name, vals)" by (cases item)
    have "(\<exists>v. (h, v) \<in> set (item # temp) \<and> P v)
        \<longleftrightarrow> (name = h \<and> P vals) \<or> (\<exists>v. (h, v) \<in> set temp \<and> P v)"
      unfolding item by (simp only: set_simps insert_iff prod.inject) blast
    then show ?case
      unfolding foldl_Cons Cons.IH item step by blast
  qed
  then show ?thesis unfolding P_def .
qed

text \<open>
  C2, as stated: the entry is omitted exactly when both values are empty or zero, and
  kept when at least one is a nonzero number. A row with max 40 and secured 0 has a
  nonzero max, and the entry is omitted.
\<close>

theorem sessional_entry_dropped_with_nonzero_max:
  "row_temp_components py [''S.No'', ''Subject Name'', ''SessionalMarks'', ''ExternalGrades'']
       [''1'', ''Maths'', ''40'', ''0'', ''A'', ''9'', ''3'']
     = [(''SessionalMarks'', (Some (VInt 40), Some (VInt 0)))]
   \<and> \<not> in_dash_zero py (VInt 40)
   \<and> map_option sessional
        (parse_marks_row py [''S.No'', ''Subject Name'', ''SessionalMarks'', ''ExternalGrades'']
           [''1'', ''Maths'', ''40'', ''0'', ''A'', ''9'', ''3'']) = Some []"
  by code_simp

text \<open>
  C2, amended: in a parsed data row, for a component pair whose main-header label
  starts with \<open>SessionalMarks\<close>, an entry with that label is in
  \<open>components.sessional\<close> exactly when both its max value and its secured value are
  neither \<open>'-'\<close> nor zero; it is omitted as soon as one of the two is.
\<close>

theorem sessional_entry_kept_iff:
  assumes row: "parse_marks_row B main_headers cells = Some subject"
    and h: "startswith ''SessionalMarks'' h"
    and pair: "map_of (row_temp_components B main_headers cells) h = Some (max_opt, secured_opt)"
  shows "(\<exists>e \<in> set (sessional subject). comp_name e = h)
         \<longleftrightarrow> \<not> in_dash_zero B (get_default max_opt (VInt 0))
              \<and> \<not> in_dash_zero B (get_default secured_opt (VInt 0))"
proof -
  let ?st = "foldl (route_cell B) (init_subject, []) (zip (component_map main_headers) cells)"
  have subj: "subject = foldl (add_component B) (fst ?st) (snd ?st)"
    using row by (auto simp: parse_marks_row_def Let_def split: if_splits prod.splits)
  have none: "sessional (fst ?st) = []"
    by (simp add: sessional_foldl_route_cell init_subject_def)
  have dist: "distinct (map fst (snd ?st))"
    by (rule distinct_foldl_route_cell) simp
  have look: "(h, vals) \<in> set (snd ?st) \<longleftrightarrow> vals = (max_opt, secured_opt)" for vals
  proof
    assume "(h, vals) \<in> set (snd ?st)"
    with dist have "map_of (snd ?st) h = Some vals" by (rule map_of_is_SomeI)
    with pair show "vals = (max_opt, secured_opt)" by (simp add: row_temp_components_def)
  next
    assume "vals = (max_opt, secured_opt)"
    with pair show "(h, vals) \<in> set (snd ?st)"
      by (auto simp: row_temp_components_def dest: map_of_SomeD)
  qed
  show ?thesis
    unfolding subj sessional_foldl_add_component [OF h] none
    using look by auto
qed

theorem sessional_entry_kept_iff_witness:
  "parse_marks_row py [''S.No'', ''Subject Name'', ''Int1'', ''SessionalMarks'', ''ExternalGrades'']
       [''1'', ''Maths'', ''20'', ''18'', ''40'', ''35'', ''A'', ''9'', ''3'']
     = Some \<lparr>s_no = VInt 1, subj_name = VStr ''Maths'', credits = VInt 3, assignment = [],
             quiz = [],
             internal = [\<lparr>comp_name = ''Int1'', comp_max = VInt 20, comp_secured = VInt 18\<rparr>],
             sessional = [\<lparr>comp_name = ''SessionalMarks'', comp_max = VInt 40, comp_secured = VInt 35\<rparr>],
             grade = VStr ''A'', grade_points = VInt 9\<rparr>
   \<and> \<not> in_dash_zero py (VInt 40) \<and> \<not> in_dash_zero py (VInt 35)"
proof -
  let ?hs = "[''S.No'', ''Subject Name'', ''Int1'', ''SessionalMarks'', ''ExternalGrades'']"
  let ?cells = "[''1'', ''Maths'', ''20'', ''18'', ''40'', ''35'', ''A'', ''9'', ''3'']"
  let ?subj = "\<lparr>s_no = VInt 1, subj_name = VStr ''Maths'', credits = VInt 3, assignment = [],
             quiz = [],
             internal = [\<lparr>comp_name = ''Int1'', comp_max = VInt 20, comp_secured = VInt 18\<rparr>],
             sessional = [\<lparr>comp_name = ''SessionalMarks'', comp_max = VInt 40, comp_secured = VInt 35\<rparr>],
             grade = VStr ''A'', grade_points = VInt 9\<rparr> :: decimal subject"
  have row: "parse_marks_row py ?hs ?cells = Some ?subj" by code_simp
  have h: "startswith ''SessionalMarks'' ''SessionalMarks''" by code_simp
  have pair: "map_of (row_temp_components py ?hs ?cells) ''SessionalMarks''
                = Some (Some (VInt 40), Some (VInt 35))"
    by code_simp
  have ex: "\<exists>e \<in> set (sessional ?subj). comp_name e = ''SessionalMarks''" by simp
  from sessional_entry_kept_iff [OF row h pair] ex
  have "\<not> in_dash_zero py (get_default (Some (VInt 40)) (VInt 0))
        \<and> \<not> in_dash_zero py (get_default (Some (VInt 35)) (VInt 0))"
    by blast
  with row show ?thesis by (simp add: get_default_def)
qed

text \<open>
  The pair accumulated for a label that occurs once among the main headers holds the
  coerced texts of its two cells.
\<close>

lemma route_cell_other:
  "fst (fst col) \<noteq> h \<Longrightarrow> map_of (snd (route_cell B st col)) h = map_of (snd st) h"
  by (cases st; cases col; cases "fst col")
     (auto simp: route_cell_def Let_def map_of_dict_set split: sub_type.splits)

lemma foldl_route_cell_other:
  "\<forall>col \<in> set cols. fst (fst col) \<noteq> h
   \<Longrightarrow> map_of (snd (foldl (route_cell B) st cols)) h = map_of (snd st) h"
  by (induction cols arbitrary: st) (simp_all add: route_cell_other)

lemma component_map_append:
  "component_map (xs @ ys) = component_map xs @ component_map ys"
  by (induction xs) simp_all

lemma component_map_headers: "fst ` set (component_map hs) \<subseteq> set hs"
  by (induction hs) auto

lemma zip_component_map_other:
  "h \<notin> set hs \<Longrightarrow> \<forall>col \<in> set (zip (component_map hs) cs). fst (fst col) \<noteq> h"
  using component_map_headers [of hs] by (fastforce dest: set_zip_leftD)

lemma route_cell_pair:
  assumes "h \<notin> set [''S.No'', ''Subject Name'', ''ExternalGrades'']"
    and "map_of (snd st) h = None"
  shows "map_of (snd (route_cell B (route_cell B st ((h, Max), a)) ((h, Secured), b))) h
         = Some (Some (to_number B (VStr a)), Some (to_number B (VStr b)))"
proof -
  obtain subj temp where st: "st = (subj, temp)" by (cases st)
  from assms(2) st have fresh: "h \<notin> set (keys temp)"
    by (simp add: keys_def map_of_eq_None_iff)
  let ?t1 = "dict_set temp h (None, None)"
  let ?t2 = "dict_set ?t1 h (Some (to_number B (VStr a)), None)"
  have s1: "route_cell B st ((h, Max), a) = (subj, ?t2)"
    using assms(1) fresh st by (simp add: route_cell_def Let_def map_of_dict_set)
  have in2: "h \<in> set (keys ?t2)"
    by (simp add: keys_def dict_set_def dom_update)
  have "route_cell B (subj, ?t2) ((h, Secured), b)
        = (subj, dict_set ?t2 h (Some (to_number B (VStr a)), Some (to_number B (VStr b))))"
    using assms(1) in2 by (simp add: route_cell_def Let_def map_of_dict_set)
  with s1 show ?thesis by (simp add: map_of_dict_set)
qed

lemma row_temp_components_unique_header:
  assumes special: "h \<notin> set [''S.No'', ''Subject Name'', ''ExternalGrades'']"
    and pre: "h \<notin> set pre" and post: "h \<notin> set post"
    and len: "length c1 = length (component_map pre)"
  shows "map_of (row_temp_components B (pre @ h # post) (c1 @ a # b # c3)) h
         = Some (Some (to_number B (VStr a)), Some (to_number B (VStr b)))"
proof -
  have cm: "component_map (pre @ h # post)
            = component_map pre @ (h, Max) # (h, Secured) # component_map post"
    using special by (simp add: component_map_append)
  have z: "zip (component_map (pre @ h # post)) (c1 @ a # b # c3)
           = zip (component_map pre) c1 @ ((h, Max), a) # ((h, Secured), b) # zip (component_map post) c3"
    unfolding cm using len by simp
  let ?s0 = "foldl (route_cell B) (init_subject, []) (zip (component_map pre) c1)"
  have n0: "map_of (snd ?s0) h = None"
    using foldl_route_cell_other [OF zip_component_map_other [OF pre], where st = "(init_subject, [])"]
    by simp
  let ?s2 = "route_cell B (route_cell B ?s0 ((h, Max), a)) ((h, Secured), b)"
  have "map_of (snd (foldl (route_cell B) ?s2 (zip (component_map post) c3))) h = map_of (snd ?s2) h"
    by (rule foldl_route_cell_other [OF zip_component_map_other [OF post]])
  also have "\<dots> = Some (Some (to_number B (VStr a)), Some (to_number B (VStr b)))"
    using special n0 by (rule route_cell_pair)
  finally show ?thesis
    by (simp add: row_temp_components_def z)
qed

section \<open>The loops around the row functions\<close>

text \<open>
  Every subject that \<open>parse_marks_table\<close> lists is the result of the row function
  on a row of the second table, under the main headers of its row 1; and every entry of
  the per-subject attendance matrix is the row mapping of a data row.
\<close>

lemma in_map_filterD:
  "y \<in> set (List.map_filter f xs) \<Longrightarrow> \<exists>x \<in> set xs. f x = Some y"
  by (induction xs) (auto split: option.splits)

lemma parse_marks_subjects_rows:
  assumes "parse_marks_subjects B tables = Inr subjects" and "subject \<in> set subjects"
  shows "\<exists>cells \<in> set (tables ! 1).
           parse_marks_row B (map newline_to_space (tables ! 1 ! 1)) cells = Some subject"
proof -
  let ?rows = "tables ! 1"
  let ?data = "drop 3 (take (length ?rows - 2) ?rows)"
  from assms(1) have "subjects = List.map_filter (parse_marks_row B (map newline_to_space (?rows ! 1))) ?data"
    by (auto simp: parse_marks_subjects_def Let_def split: if_splits)
  with assms(2) obtain cells where c: "cells \<in> set ?data"
    and r: "parse_marks_row B (map newline_to_space (?rows ! 1)) cells = Some subject"
    by (auto dest: in_map_filterD)
  from c have "cells \<in> set ?rows"
    by (meson in_set_dropD in_set_takeD)
  with r show ?thesis by blast
qed

lemma foldl_sub_row_rows:
  "(t, r) \<in> set (foldl (sub_row B names keep) acc rows) \<Longrightarrow>
   (t, r) \<in> set acc
   \<or> (\<exists>cells \<in> set rows. cells \<noteq> [] \<and> t = cells ! 0
          \<and> r = row_mapping B names keep (drop 1 cells))"
proof (induction rows arbitrary: acc)
  case Nil
  then show ?case by simp
next
  case (Cons cells rows)
  from Cons.IH [of "sub_row B names keep acc cells"] Cons.prems
  consider "(t, r) \<in> set (sub_row B names keep acc cells)"
    | "\<exists>cells \<in> set rows. cells \<noteq> [] \<and> t = cells ! 0
          \<and> r = row_mapping B names keep (drop 1 cells)"
    by auto
  then show ?case
  proof cases
    case 1
    show ?thesis
    proof (cases "cells = []")
      case True
      with 1 show ?thesis by (simp add: sub_row_def)
    next
      case False
      with 1 set_dict_set [of acc "cells ! 0" "row_mapping B names keep (drop 1 cells)"]
      have "(t, r) = (cells ! 0, row_mapping B names keep (drop 1 cells)) \<or> (t, r) \<in> set acc"
        by (auto simp: sub_row_def)
      with False show ?thesis by auto
    qed
  next
    case 2
    then show ?thesis by auto
  qed
qed

end
